theory Spec2Isabelle
  imports Main "HOL-Library.Word"
begin

unbundle bit_operations_syntax

section \<open>MikroID: data model\<close>

text \<open>
  The development embeds the class \<open>MikroID\<close> (the generator and its registry of named
  configurations) together with the types of \<open>interfaces/index.ts\<close>.

  Numbers: the lengths the class receives are JavaScript numbers. The model covers the
  integer-valued ones as \<open>int\<close>. Memory limits of the engine (the largest typed array, the
  largest string) are outside the model.

  Errors: the class throws plain \<open>Error\<close> objects that differ in their message only. Each
  throw site is a constructor of \<open>error\<close>, and \<open>message\<close> gives the text the source builds.
  \<open>QuotaExceeded\<close> is the exception of \<open>getRandomValues\<close> (a \<open>QuotaExceededError\<close>), which
  the class does not catch.
\<close>

type_synonym u8 = "8 word"

datatype error =
    MissingName
  | ConfigurationNotFound string
  | InvalidLength
  | InvalidStyle string
  | QuotaExceeded

fun message :: "error \<Rightarrow> string" where
  \<open>message MissingName = ''Missing name for the ID configuration''\<close>
| \<open>message (ConfigurationNotFound n) = ''No configuration found with name: '' @ n\<close>
| \<open>message InvalidLength = ''ID length cannot be negative''\<close>
| \<open>message (InvalidStyle s) =
     ''Unknown ID style "'' @ s @
     '' provided. Must be one of "extended" (default), "alphanumeric", or "hex".''\<close>
| \<open>message QuotaExceeded = ''The requested length exceeds 65,536 bytes''\<close>

text \<open>
  \<open>IdConfiguration\<close> as \<open>generateConfig\<close> builds it: every field is populated. The style is a
  string at run time (the type \<open>IdStyle\<close> is erased), so a style outside the three known ones
  can reach the generator.
\<close>

record IdConfiguration =
  name :: string
  length_cfg :: int
  onlyLowerCase :: bool
  style :: string
  urlSafe :: bool

text \<open>
  \<open>IdConfigurationOptions = Partial<IdConfiguration>\<close>: every field may be absent
  (\<open>None\<close> stands for \<open>undefined\<close>).
\<close>

record IdConfigurationOptions =
  name_opt :: "string option"
  length_opt :: "int option"
  onlyLowerCase_opt :: "bool option"
  style_opt :: "string option"
  urlSafe_opt :: "bool option"

definition defaultLength :: int where
  "defaultLength = 16"

definition defaultOnlyLowerCase :: bool where
  "defaultOnlyLowerCase = False"

definition defaultStyle :: string where
  "defaultStyle = ''extended''"

definition defaultUrlSafe :: bool where
  "defaultUrlSafe = True"

text \<open>
  \<open>generateConfig\<close>: the fields \<open>name\<close>, \<open>length\<close> and \<open>style\<close> are merged with \<open>||\<close>, which
  replaces every falsy value (absent, the empty string, zero); the two flags are merged with
  \<open>??\<close>, which replaces an absent value only.
\<close>

definition generateConfig :: "IdConfigurationOptions \<Rightarrow> IdConfiguration" where
  "generateConfig options =
     \<lparr> name = (case name_opt options of
                 None \<Rightarrow> ''''
               | Some n \<Rightarrow> if n = '''' then '''' else n),
       length_cfg = (case length_opt options of
                 None \<Rightarrow> defaultLength
               | Some l \<Rightarrow> if l = 0 then defaultLength else l),
       onlyLowerCase = (case onlyLowerCase_opt options of
                 None \<Rightarrow> defaultOnlyLowerCase
               | Some b \<Rightarrow> b),
       style = (case style_opt options of
                 None \<Rightarrow> defaultStyle
               | Some s \<Rightarrow> if s = '''' then defaultStyle else s),
       urlSafe = (case urlSafe_opt options of
                 None \<Rightarrow> defaultUrlSafe
               | Some b \<Rightarrow> b) \<rparr>"

section \<open>The alphabet resolver\<close>

definition getCharacterSet :: "string \<Rightarrow> bool \<Rightarrow> bool \<Rightarrow> error + string" where
  "getCharacterSet style' onlyLowerCase' urlSafe' =
     (if style' = ''hex'' then
        Inr (if onlyLowerCase' then ''0123456789abcdef'' else ''0123456789ABCDEFabcdef'')
      else if style' = ''alphanumeric'' then
        Inr (if onlyLowerCase'
             then ''abcdefghijklmnopqrstuvwxyz0123456789''
             else ''ABCDEFGHIJKLMNOPQRSTUVWXYZabcdefghijklmnopqrstuvwxyz0123456789'')
      else if style' = ''extended'' then
        (if urlSafe' then
           Inr (if onlyLowerCase'
                then ''abcdefghijklmnopqrstuvwxyz0123456789-._~''
                else ''ABCDEFGHIJKLMNOPQRSTUVWXYZabcdefghijklmnopqrstuvwxyz0123456789-._~'')
         else
           Inr (if onlyLowerCase'
                then ''abcdefghijklmnopqrstuvwxyz0123456789-._~!$()*+,;=:''
                else ''ABCDEFGHIJKLMNOPQRSTUVWXYZabcdefghijklmnopqrstuvwxyz0123456789-._~!$()*+,;=:''))
      else Inl (InvalidStyle style'))"

section \<open>The secure ID generator\<close>

text \<open>
  The random source. \<open>getRandomValues\<close> of \<open>node:crypto\<close> fills a fresh array of \<open>step\<close>
  bytes on every turn of the outer loop. The bytes one call of \<open>generateId\<close> draws are
  taken, in the order they are drawn, from a sequence \<open>rnd\<close> that is an input of the model:
  byte \<open>i\<close> of the call is \<open>rnd i\<close>.

  \<open>getRandomValues\<close> refuses an array of more than 65536 bytes with a
  \<open>QuotaExceededError\<close>. (An array beyond the largest typed array of the engine is refused
  by \<open>new Uint8Array\<close> before that; the model does not tell the two failures apart.)
\<close>

type_synonym random_source = "nat \<Rightarrow> u8"

definition getRandomValues :: "random_source \<Rightarrow> nat \<Rightarrow> nat \<Rightarrow> error + u8 list" where
  "getRandomValues rnd pos step =
     (if 65536 < step then Inl QuotaExceeded else Inr (map rnd [pos..<pos + step]))"

text \<open>
  The mask \<open>(2 << (Math.log(n - 1) / Math.LN2)) - 1\<close>. The shift converts its right operand
  to an unsigned integer by truncation and uses its low five bits; the left operand and the
  result are signed 32-bit integers. \<open>log2_trunc x\<close> is the truncated quotient
  \<open>Math.log(x) / Math.LN2\<close>: the integer part of the binary logarithm for \<open>x \<ge> 1\<close>, and
  \<open>0\<close> for \<open>x \<le> 0\<close> (the quotient is then \<open>-Infinity\<close> or \<open>NaN\<close>, which convert to \<open>0\<close>).
  The floating-point quotient has the same integer part as the exact logarithm unless \<open>x\<close> is
  next to a power of two, which none of \<open>n - 1\<close> for the alphabets of \<open>getCharacterSet\<close> is.
\<close>

fun floor_log2 :: "nat \<Rightarrow> nat" where
  "floor_log2 n = (if n < 2 then 0 else Suc (floor_log2 (n div 2)))"

declare floor_log2.simps [simp del]

definition log2_trunc :: "int \<Rightarrow> nat" where
  "log2_trunc x = (if x \<le> 0 then 0 else floor_log2 (nat x))"

definition shift_left :: "int \<Rightarrow> nat \<Rightarrow> int" where
  "shift_left a k = sint (push_bit (k mod 32) (word_of_int a :: 32 word))"

definition mask_of :: "string \<Rightarrow> int" where
  "mask_of characters = shift_left 2 (log2_trunc (int (length characters) - 1)) - 1"

text \<open>
  The batch size \<open>Math.ceil((1.6 * mask * length) / n)\<close>, with the quotient taken exactly
  (\<open>1.6 = 16 / 10\<close>) and rounded up. It is positive whenever the loop is reached (the mask,
  the length and the size of the alphabet are). The results on the loop hold for every
  positive batch size within the quota of \<open>getRandomValues\<close>.
\<close>

definition step_of :: "string \<Rightarrow> int \<Rightarrow> int \<Rightarrow> nat" where
  "step_of characters mask' len =
     nat (- ((- (16 * mask' * len)) div (10 * int (length characters))))"

text \<open>
  The inner \<open>for\<close> loop over one batch: a byte is masked, a masked value below the size of
  the alphabet appends a character, and the loop is left as soon as the identifier has the
  requested length.
\<close>

fun for_loop :: "string \<Rightarrow> int \<Rightarrow> int \<Rightarrow> u8 list \<Rightarrow> string \<Rightarrow> string" where
  "for_loop characters mask' len [] id' = id'"
| "for_loop characters mask' len (b # bytes) id' =
     (let byte = uint b AND mask' in
        if byte < int (length characters) then
          (let id'' = id' @ [characters ! nat byte] in
             if int (length id'') = len then id''
             else for_loop characters mask' len bytes id'')
        else for_loop characters mask' len bytes id')"

text \<open>
  The outer \<open>while\<close> loop has no bound on its number of turns. \<open>None\<close> is the loop that does
  not return. An exception of \<open>getRandomValues\<close> leaves the loop.
\<close>

partial_function (option) while_loop ::
  "random_source \<Rightarrow> string \<Rightarrow> int \<Rightarrow> nat \<Rightarrow> int \<Rightarrow> nat \<Rightarrow> string \<Rightarrow>
     (error + string) option" where
  "while_loop rnd characters mask' step len pos id' =
     (if int (length id') < len
      then (case getRandomValues rnd pos step of
              Inl e \<Rightarrow> Some (Inl e)
            | Inr bytes \<Rightarrow>
                while_loop rnd characters mask' step len (pos + step)
                  (for_loop characters mask' len bytes id'))
      else Some (Inr id'))"

declare while_loop.simps [code]

section \<open>Values read from the registry object\<close>

text \<open>
  The registry \<open>this.options\<close> is a plain object, created by \<open>{}\<close> and read by
  \<open>this.options[name]\<close>, so a read that finds no own property continues in the prototype
  chain. The values such a read can give are the stored configurations, the members of
  \<open>Object.prototype\<close> (functions, given by their \<open>length\<close>, and \<open>Object.prototype\<close> itself
  under \<open>__proto__\<close>), the fields of a configuration, and \<open>undefined\<close>.
\<close>

datatype jsval =
    Undefined
  | Number int
  | String string
  | Boolean bool
  | Object IdConfiguration
  | Function nat
  | ObjectPrototype

fun truthy :: "jsval \<Rightarrow> bool" where
  "truthy Undefined = False"
| "truthy (Number n) = (n \<noteq> 0)"
| "truthy (String s) = (s \<noteq> '''')"
| "truthy (Boolean b) = b"
| "truthy (Object c) = True"
| "truthy (Function n) = True"
| "truthy ObjectPrototype = True"

text \<open>The members of \<open>Object.prototype\<close> other than \<open>__proto__\<close>.\<close>

definition object_prototype :: "string \<Rightarrow> jsval" where
  "object_prototype k =
     (if k = ''constructor'' then Function 1
      else if k = ''__defineGetter__'' then Function 2
      else if k = ''__defineSetter__'' then Function 2
      else if k = ''hasOwnProperty'' then Function 1
      else if k = ''__lookupGetter__'' then Function 1
      else if k = ''__lookupSetter__'' then Function 1
      else if k = ''isPrototypeOf'' then Function 1
      else if k = ''propertyIsEnumerable'' then Function 1
      else if k = ''toString'' then Function 0
      else if k = ''valueOf'' then Function 0
      else if k = ''toLocaleString'' then Function 0
      else Undefined)"

text \<open>A read of property \<open>k\<close> from a configuration object (its prototype is \<open>Object.prototype\<close>).\<close>

definition config_property :: "IdConfiguration \<Rightarrow> string \<Rightarrow> jsval" where
  "config_property c k =
     (if k = ''name'' then String (name c)
      else if k = ''length'' then Number (length_cfg c)
      else if k = ''onlyLowerCase'' then Boolean (onlyLowerCase c)
      else if k = ''style'' then String (style c)
      else if k = ''urlSafe'' then Boolean (urlSafe c)
      else object_prototype k)"

text \<open>
  The registry maps the names of its own properties to configurations. The slot
  \<open>__proto__\<close> of the map is the prototype link of the object: an assignment to that key
  replaces the prototype by the assigned object, a read returns the prototype, and \<open>delete\<close>
  leaves it (it is no own property). An empty slot is the initial prototype
  \<open>Object.prototype\<close>.
\<close>

type_synonym registry = "string \<rightharpoonup> IdConfiguration"

definition get_property :: "registry \<Rightarrow> string \<Rightarrow> jsval" where
  "get_property options k =
     (case options k of
        Some c \<Rightarrow> Object c
      | None \<Rightarrow>
          if k = ''__proto__'' then ObjectPrototype
          else (case options ''__proto__'' of
                  None \<Rightarrow> object_prototype k
                | Some p \<Rightarrow> config_property p k))"

definition set_property :: "registry \<Rightarrow> string \<Rightarrow> IdConfiguration \<Rightarrow> registry" where
  "set_property options k c = options(k \<mapsto> c)"

definition delete_property :: "registry \<Rightarrow> string \<Rightarrow> registry" where
  "delete_property options k = (if k = ''__proto__'' then options else options(k := None))"

text \<open>
  The destructuring \<open>const { length, onlyLowerCase, style, urlSafe } = options\<close>. The two
  flags are only ever tested for truth, so they are read as booleans (an absent flag is
  falsy); an absent \<open>length\<close> or \<open>style\<close> is \<open>None\<close>. A function has a \<open>length\<close> (its
  number of parameters) and so has a string; no other value has one of the four properties.
  \<open>generateId\<close> is private and is called with a configuration (by \<open>create\<close>) or with a
  truthy value read from the registry (by \<open>custom\<close>), never with \<open>undefined\<close>.
\<close>

fun destructure :: "jsval \<Rightarrow> int option \<times> bool \<times> string option \<times> bool" where
  "destructure (Object c) = (Some (length_cfg c), onlyLowerCase c, Some (style c), urlSafe c)"
| "destructure (Function n) = (Some (int n), False, None, False)"
| "destructure (String s) = (Some (int (length s)), False, None, False)"
| "destructure v = (None, False, None, False)"

text \<open>
  An absent style is unequal to the three known styles and is printed as \<open>undefined\<close> in the
  message of the error, as the string \<open>undefined\<close> is.
\<close>

fun render :: "string option \<Rightarrow> string" where
  "render None = ''undefined''"
| "render (Some s) = s"

text \<open>
  \<open>generateId\<close>. The length is checked before the alphabet is resolved. Comparisons with
  an absent length are false: the check passes and the loop body never runs.
\<close>

definition generateId :: "random_source \<Rightarrow> jsval \<Rightarrow> (error + string) option" where
  "generateId rnd options =
     (case destructure options of
        (length', onlyLowerCase', style', urlSafe') \<Rightarrow>
          if (case length' of None \<Rightarrow> False | Some l \<Rightarrow> l < 0 \<or> l = 0)
          then Some (Inl InvalidLength)
          else (case getCharacterSet (render style') onlyLowerCase' urlSafe' of
                  Inl e \<Rightarrow> Some (Inl e)
                | Inr characters \<Rightarrow>
                    (case length' of
                       None \<Rightarrow> Some (Inr '''')
                     | Some l \<Rightarrow>
                         (let mask' = mask_of characters;
                              step = step_of characters mask' l
                          in while_loop rnd characters mask' step l 0 ''''))))"

section \<open>The public methods\<close>

text \<open>
  Every method takes the registry and returns its result with the registry it leaves. A thrown
  error is \<open>Inl\<close>. The result of a generating method is \<open>None\<close> when the call does not return.
\<close>

text \<open>
  The constructor stores the normalised configuration of every entry of the mapping it is
  given, under the key of the entry, in the order of \<open>Object.entries\<close>.
\<close>

fun constructor_loop ::
  "(string \<times> IdConfigurationOptions) list \<Rightarrow> registry \<Rightarrow> registry" where
  "constructor_loop [] options = options"
| "constructor_loop ((name', config) # entries) options =
     constructor_loop entries (set_property options name' (generateConfig config))"

definition constructor :: "(string \<times> IdConfigurationOptions) list \<Rightarrow> registry" where
  "constructor entries = constructor_loop entries Map.empty"

definition falsy_name :: "IdConfigurationOptions \<Rightarrow> bool" where
  "falsy_name config = (case name_opt config of None \<Rightarrow> True | Some n \<Rightarrow> n = '''')"

definition add :: "IdConfigurationOptions \<Rightarrow> registry \<Rightarrow> (error + unit) \<times> registry" where
  "add config options =
     (if falsy_name config then (Inl MissingName, options)
      else (let cleanConfig = generateConfig config
            in (Inr (), set_property options (the (name_opt config)) cleanConfig)))"

definition remove :: "IdConfigurationOptions \<Rightarrow> registry \<Rightarrow> (error + unit) \<times> registry" where
  "remove config options =
     (if falsy_name config then (Inl MissingName, options)
      else (Inr (), delete_property options (the (name_opt config))))"

definition create ::
  "random_source \<Rightarrow> int option \<Rightarrow> string option \<Rightarrow> bool option \<Rightarrow> bool option \<Rightarrow>
     registry \<Rightarrow> (error + string) option \<times> registry" where
  "create rnd length' style' onlyLowerCase' urlSafe' options =
     (let config = generateConfig
            \<lparr> name_opt = None, length_opt = length', onlyLowerCase_opt = onlyLowerCase',
              style_opt = style', urlSafe_opt = urlSafe' \<rparr>
      in (generateId rnd (Object config), options))"

definition custom ::
  "random_source \<Rightarrow> string \<Rightarrow> registry \<Rightarrow> (error + string) option \<times> registry" where
  "custom rnd name' options =
     (if truthy (get_property options name')
      then (generateId rnd (get_property options name'), options)
      else (Some (Inl (ConfigurationNotFound name')), options))"

section \<open>Notions used in the statements\<close>

text \<open>
  The mask as the specification words it: the smallest value of the form \<open>2 ^ k - 1\<close> that
  is at least \<open>n - 1\<close>, for an alphabet of \<open>n\<close> characters.
\<close>

definition smallest_mask :: "int \<Rightarrow> nat \<Rightarrow> bool" where
  "smallest_mask m n \<longleftrightarrow>
     (\<exists>k::nat. m = 2 ^ k - 1) \<and> int n - 1 \<le> m \<and>
     (\<forall>k::nat. int n - 1 \<le> 2 ^ k - 1 \<longrightarrow> m \<le> 2 ^ k - 1)"

text \<open>
  The bytes the inner loop accepts (the test \<open>byte < characters.length\<close> after masking), and
  the characters a list of bytes contributes.
\<close>

definition accepted :: "string \<Rightarrow> int \<Rightarrow> u8 \<Rightarrow> bool" where
  "accepted characters mask' b \<longleftrightarrow> uint b AND mask' < int (length characters)"

definition accepted_characters :: "string \<Rightarrow> int \<Rightarrow> u8 list \<Rightarrow> string" where
  "accepted_characters characters mask' bytes =
     map (\<lambda>b. characters ! nat (uint b AND mask')) (filter (accepted characters mask') bytes)"

text \<open>Random sources for the concrete runs: all bytes zero, a varied one, all bytes 255.\<close>

definition zero_source :: random_source where
  "zero_source i = 0"

definition sample_source :: random_source where
  "sample_source i = word_of_nat (i * 37)"

definition stuck_source :: random_source where
  "stuck_source i = 255"

text \<open>Configurations for the concrete runs.\<close>

definition hex_config :: IdConfiguration where
  "hex_config =
     \<lparr> name = [], length_cfg = 6, onlyLowerCase = False, style = ''hex'', urlSafe = True \<rparr>"

definition alphanumeric_config :: IdConfiguration where
  "alphanumeric_config =
     \<lparr> name = [], length_cfg = 16, onlyLowerCase = False, style = ''alphanumeric'',
       urlSafe = True \<rparr>"

definition large_config :: IdConfiguration where
  "large_config =
     \<lparr> name = [], length_cfg = 30000, onlyLowerCase = False, style = ''extended'',
       urlSafe = True \<rparr>"

definition no_options :: IdConfigurationOptions where
  "no_options =
     \<lparr> name_opt = None, length_opt = None, onlyLowerCase_opt = None, style_opt = None,
       urlSafe_opt = None \<rparr>"

definition negative_options :: IdConfigurationOptions where
  "negative_options =
     \<lparr> name_opt = Some ''neg'', length_opt = Some (- 5), onlyLowerCase_opt = None,
       style_opt = None, urlSafe_opt = None \<rparr>"

definition test_options :: IdConfigurationOptions where
  "test_options =
     \<lparr> name_opt = Some ''test-config'', length_opt = Some 10, onlyLowerCase_opt = Some False,
       style_opt = None, urlSafe_opt = Some False \<rparr>"

section \<open>The alphabets\<close>

lemma getCharacterSet_cases:
  assumes "getCharacterSet s l u = Inr cs"
  shows "cs \<in> {''0123456789abcdef'', ''0123456789ABCDEFabcdef'',
     ''abcdefghijklmnopqrstuvwxyz0123456789'',
     ''ABCDEFGHIJKLMNOPQRSTUVWXYZabcdefghijklmnopqrstuvwxyz0123456789'',
     ''abcdefghijklmnopqrstuvwxyz0123456789-._~'',
     ''ABCDEFGHIJKLMNOPQRSTUVWXYZabcdefghijklmnopqrstuvwxyz0123456789-._~'',
     ''abcdefghijklmnopqrstuvwxyz0123456789-._~!$()*+,;=:'',
     ''ABCDEFGHIJKLMNOPQRSTUVWXYZabcdefghijklmnopqrstuvwxyz0123456789-._~!$()*+,;=:''}"
  using assms unfolding getCharacterSet_def by (auto split: if_splits)

text \<open>
  Claim C4. The alphabet resolver returns exactly the eight strings of the table: for \<open>hex\<close>
  and \<open>alphanumeric\<close> the result does not depend on \<open>urlSafe\<close> (the flag \<open>u\<close> is arbitrary
  there), for \<open>extended\<close> the URL-safe alphabets end in \<open>-._~\<close> and the others in
  \<open>-._~!$()*+,;=:\<close>; and every alphabet the resolver returns is free of duplicates.
\<close>

theorem getCharacterSet_alphabets:
  "getCharacterSet ''hex'' False u = Inr ''0123456789ABCDEFabcdef''
   \<and> getCharacterSet ''hex'' True u = Inr ''0123456789abcdef''
   \<and> getCharacterSet ''alphanumeric'' False u =
       Inr ''ABCDEFGHIJKLMNOPQRSTUVWXYZabcdefghijklmnopqrstuvwxyz0123456789''
   \<and> getCharacterSet ''alphanumeric'' True u = Inr ''abcdefghijklmnopqrstuvwxyz0123456789''
   \<and> getCharacterSet ''extended'' False True =
       Inr ''ABCDEFGHIJKLMNOPQRSTUVWXYZabcdefghijklmnopqrstuvwxyz0123456789-._~''
   \<and> getCharacterSet ''extended'' True True = Inr ''abcdefghijklmnopqrstuvwxyz0123456789-._~''
   \<and> getCharacterSet ''extended'' False False =
       Inr ''ABCDEFGHIJKLMNOPQRSTUVWXYZabcdefghijklmnopqrstuvwxyz0123456789-._~!$()*+,;=:''
   \<and> getCharacterSet ''extended'' True False =
       Inr ''abcdefghijklmnopqrstuvwxyz0123456789-._~!$()*+,;=:''
   \<and> (getCharacterSet s l v = Inr cs \<longrightarrow> distinct cs)"
proof -
  have "distinct cs" if "getCharacterSet s l v = Inr cs"
    using getCharacterSet_cases [OF that] by (elim insertE emptyE) simp_all
  then show ?thesis
    by (simp add: getCharacterSet_def)
qed

theorem getCharacterSet_alphabets_witness:
  "getCharacterSet ''extended'' True False =
     Inr ''abcdefghijklmnopqrstuvwxyz0123456789-._~!$()*+,;=:''
   \<and> distinct ''abcdefghijklmnopqrstuvwxyz0123456789-._~!$()*+,;=:''"
  using getCharacterSet_alphabets [of True "''extended''" True False
      "''abcdefghijklmnopqrstuvwxyz0123456789-._~!$()*+,;=:''"]
  by blast

text \<open>
  Claim C9. A style outside \<open>hex\<close>, \<open>alphanumeric\<close> and \<open>extended\<close> makes the resolver fail
  with the error of the unknown style, whose message contains the style it was given; the
  resolver returns an alphabet for exactly the three known styles.
\<close>

theorem getCharacterSet_unknown_style:
  \<open>(s \<notin> {''hex'', ''alphanumeric'', ''extended''} \<longrightarrow>
      getCharacterSet s l u = Inl (InvalidStyle s)
      \<and> message (InvalidStyle s) =
          ''Unknown ID style "'' @ s @
          '' provided. Must be one of "extended" (default), "alphanumeric", or "hex".'')
   \<and> ((\<exists>cs. getCharacterSet s l u = Inr cs) \<longleftrightarrow>
        s \<in> {''hex'', ''alphanumeric'', ''extended''})\<close>
  by (auto simp: getCharacterSet_def)

theorem getCharacterSet_unknown_style_witness:
  \<open>''does_not_exist'' \<notin> {''hex'', ''alphanumeric'', ''extended''}
   \<and> getCharacterSet ''does_not_exist'' False True = Inl (InvalidStyle ''does_not_exist'')
   \<and> message (InvalidStyle ''does_not_exist'') =
       ''Unknown ID style "does_not_exist provided. Must be one of "extended" (default), "alphanumeric", or "hex".''\<close>
  using getCharacterSet_unknown_style [of "''does_not_exist''" False True]
  by simp

section \<open>The mask\<close>

lemma pow2_least:
  fixes j k :: nat and x :: int
  assumes "2 ^ j < x + 1" and "x \<le> 2 ^ k - 1"
  shows "(2::int) ^ Suc j - 1 \<le> 2 ^ k - 1"
proof -
  from assms have "(2::int) ^ j < 2 ^ k" by linarith
  then have "j < k" by simp
  then have "Suc j \<le> k" by simp
  then have "(2::int) ^ Suc j \<le> 2 ^ k" by (rule power_increasing) simp
  then show ?thesis by simp
qed

lemma smallest_maskI:
  fixes j n :: nat
  assumes "m = 2 ^ Suc j - 1" and "2 ^ j < int n" and "int n \<le> 2 ^ Suc j"
  shows "smallest_mask m n"
  unfolding smallest_mask_def
proof (intro conjI allI impI)
  show "\<exists>k::nat. m = 2 ^ k - 1" using assms(1) by blast
  show "int n - 1 \<le> m" using assms(1,3) by simp
  fix k :: nat
  assume "int n - 1 \<le> 2 ^ k - 1"
  with assms(2) have "(2::int) ^ Suc j - 1 \<le> 2 ^ k - 1"
    by (intro pow2_least [where x = "int n - 1"]) simp_all
  then show "m \<le> 2 ^ k - 1" using assms(1) by simp
qed

lemma floor_log2_numeral [simp]:
  "floor_log2 (numeral w) =
     (if numeral w < (2::nat) then 0 else Suc (floor_log2 (numeral w div 2)))"
  by (rule floor_log2.simps)

lemma mask_values:
  "mask_of ''0123456789abcdef'' = 15"
  "mask_of ''0123456789ABCDEFabcdef'' = 31"
  "mask_of ''abcdefghijklmnopqrstuvwxyz0123456789'' = 63"
  "mask_of ''ABCDEFGHIJKLMNOPQRSTUVWXYZabcdefghijklmnopqrstuvwxyz0123456789'' = 63"
  "mask_of ''abcdefghijklmnopqrstuvwxyz0123456789-._~'' = 63"
  "mask_of ''ABCDEFGHIJKLMNOPQRSTUVWXYZabcdefghijklmnopqrstuvwxyz0123456789-._~'' = 127"
  "mask_of ''abcdefghijklmnopqrstuvwxyz0123456789-._~!$()*+,;=:'' = 63"
  "mask_of ''ABCDEFGHIJKLMNOPQRSTUVWXYZabcdefghijklmnopqrstuvwxyz0123456789-._~!$()*+,;=:'' = 127"
  by (simp_all add: mask_of_def log2_trunc_def shift_left_def
        floor_log2.simps [of 0] floor_log2.simps [of 1] floor_log2.simps [of "Suc 0"])

lemma mask_caseI:
  assumes "length cs = n" and "mask_of cs = m" and "smallest_mask m n"
    and "n \<in> {16, 22, 36, 40, 50, 62, 66, 76}"
  shows "length cs \<in> {16, 22, 36, 40, 50, 62, 66, 76}
         \<and> smallest_mask (mask_of cs) (length cs)"
  using assms by simp

text \<open>
  Claim C5. Every alphabet the resolver returns has one of the eight sizes 16, 22, 36, 40, 50,
  62, 66 and 76, and the mask \<open>generateId\<close> computes for it is the smallest value of the form
  \<open>2 ^ k - 1\<close> that is at least its size minus one.
\<close>

theorem mask_is_smallest:
  assumes "getCharacterSet s l u = Inr cs"
  shows "length cs \<in> {16, 22, 36, 40, 50, 62, 66, 76}
         \<and> smallest_mask (mask_of cs) (length cs)"
  using getCharacterSet_cases [OF assms]
proof (elim insertE emptyE)
  assume "cs = ''0123456789abcdef''"
  then show ?thesis
    by (intro mask_caseI [where n = 16 and m = 15] smallest_maskI [where j = 3])
       (simp_all add: mask_values)
next
  assume "cs = ''0123456789ABCDEFabcdef''"
  then show ?thesis
    by (intro mask_caseI [where n = 22 and m = 31] smallest_maskI [where j = 4])
       (simp_all add: mask_values)
next
  assume "cs = ''abcdefghijklmnopqrstuvwxyz0123456789''"
  then show ?thesis
    by (intro mask_caseI [where n = 36 and m = 63] smallest_maskI [where j = 5])
       (simp_all add: mask_values)
next
  assume "cs = ''ABCDEFGHIJKLMNOPQRSTUVWXYZabcdefghijklmnopqrstuvwxyz0123456789''"
  then show ?thesis
    by (intro mask_caseI [where n = 62 and m = 63] smallest_maskI [where j = 5])
       (simp_all add: mask_values)
next
  assume "cs = ''abcdefghijklmnopqrstuvwxyz0123456789-._~''"
  then show ?thesis
    by (intro mask_caseI [where n = 40 and m = 63] smallest_maskI [where j = 5])
       (simp_all add: mask_values)
next
  assume "cs = ''ABCDEFGHIJKLMNOPQRSTUVWXYZabcdefghijklmnopqrstuvwxyz0123456789-._~''"
  then show ?thesis
    by (intro mask_caseI [where n = 66 and m = 127] smallest_maskI [where j = 6])
       (simp_all add: mask_values)
next
  assume "cs = ''abcdefghijklmnopqrstuvwxyz0123456789-._~!$()*+,;=:''"
  then show ?thesis
    by (intro mask_caseI [where n = 50 and m = 63] smallest_maskI [where j = 5])
       (simp_all add: mask_values)
next
  assume "cs = ''ABCDEFGHIJKLMNOPQRSTUVWXYZabcdefghijklmnopqrstuvwxyz0123456789-._~!$()*+,;=:''"
  then show ?thesis
    by (intro mask_caseI [where n = 76 and m = 127] smallest_maskI [where j = 6])
       (simp_all add: mask_values)
qed

theorem mask_is_smallest_witness:
  "getCharacterSet ''alphanumeric'' False True =
     Inr ''ABCDEFGHIJKLMNOPQRSTUVWXYZabcdefghijklmnopqrstuvwxyz0123456789''
   \<and> mask_of ''ABCDEFGHIJKLMNOPQRSTUVWXYZabcdefghijklmnopqrstuvwxyz0123456789'' = 63
   \<and> smallest_mask 63 62"
proof -
  have g: "getCharacterSet ''alphanumeric'' False True =
     Inr ''ABCDEFGHIJKLMNOPQRSTUVWXYZabcdefghijklmnopqrstuvwxyz0123456789''"
    by (simp add: getCharacterSet_def)
  have n: "length ''ABCDEFGHIJKLMNOPQRSTUVWXYZabcdefghijklmnopqrstuvwxyz0123456789'' = 62"
    by simp
  have "smallest_mask
          (mask_of ''ABCDEFGHIJKLMNOPQRSTUVWXYZabcdefghijklmnopqrstuvwxyz0123456789'')
          (length ''ABCDEFGHIJKLMNOPQRSTUVWXYZabcdefghijklmnopqrstuvwxyz0123456789'')"
    using mask_is_smallest [OF g] by (rule conjunct2)
  then have "smallest_mask 63 62"
    by (simp only: n mask_values)
  with g show ?thesis by (simp only: mask_values simp_thms)
qed

section \<open>The generation loop\<close>

lemma accepted_characters_append:
  "accepted_characters cs m (xs @ ys) = accepted_characters cs m xs @ accepted_characters cs m ys"
  by (simp add: accepted_characters_def)

lemma accepted_characters_Cons:
  "accepted_characters cs m (b # bs) =
     (if uint b AND m < int (length cs)
      then cs ! nat (uint b AND m) # accepted_characters cs m bs
      else accepted_characters cs m bs)"
  by (simp add: accepted_characters_def accepted_def)

lemma accepted_characters_Nil [simp]: "accepted_characters cs m [] = []"
  by (simp add: accepted_characters_def)

lemma set_accepted_characters: "set (accepted_characters cs m bs) \<subseteq> set cs"
proof
  fix c
  assume "c \<in> set (accepted_characters cs m bs)"
  then obtain b where b: "accepted cs m b" and c: "c = cs ! nat (uint b AND m)"
    by (auto simp: accepted_characters_def)
  have "0 \<le> uint b AND m" by simp
  with b have "nat (uint b AND m) < length cs"
    by (simp add: accepted_def nat_less_iff)
  with c show "c \<in> set cs" by simp
qed

lemma for_loop_take:
  assumes "int (length id') < len"
  shows "for_loop cs m len bytes id' = take (nat len) (id' @ accepted_characters cs m bytes)"
  using assms
proof (induction bytes arbitrary: id')
  case Nil
  then show ?case by simp
next
  case (Cons b bytes)
  show ?case
  proof (cases "uint b AND m < int (length cs)")
    case False
    with Cons show ?thesis by (simp add: accepted_characters_Cons)
  next
    case True
    let ?id = "id' @ [cs ! nat (uint b AND m)]"
    show ?thesis
    proof (cases "int (length ?id) = len")
      case full: True
      then have "nat len = length ?id"
        by (simp add: nat_eq_iff)
      then have "take (nat len) (?id @ accepted_characters cs m bytes) = ?id"
        by simp
      with True full show ?thesis
        by (simp add: accepted_characters_Cons Let_def)
    next
      case False
      with Cons.prems have "int (length ?id) < len" by simp
      from Cons.IH [OF this] True False show ?thesis
        by (simp add: accepted_characters_Cons Let_def)
    qed
  qed
qed

lemma take_take_append: "take n (take n xs @ ys) = take n (xs @ ys)"
  by (cases "n \<le> length xs") simp_all

lemma while_loop_step:
  assumes "int (length id') < len" and "step \<le> 65536"
  shows "while_loop rnd cs m step len pos id' =
           while_loop rnd cs m step len (pos + step)
             (for_loop cs m len (map rnd [pos..<pos + step]) id')"
  using assms by (subst while_loop.simps) (simp add: getRandomValues_def)

lemma while_loop_done:
  assumes "\<not> int (length id') < len"
  shows "while_loop rnd cs m step len pos id' = Some (Inr id')"
  using assms by (subst while_loop.simps) simp

lemma while_loop_quota:
  assumes "int (length id') < len" and "65536 < step"
  shows "while_loop rnd cs m step len pos id' = Some (Inl QuotaExceeded)"
  using assms by (subst while_loop.simps) (simp add: getRandomValues_def)

lemma while_loop_batches:
  assumes "step \<le> 65536" and "int (length id') \<le> len"
    and "len \<le> int (length (id' @ accepted_characters cs m (map rnd [pos..<pos + k * step])))"
  shows "while_loop rnd cs m step len pos id' =
           Some (Inr (take (nat len)
                   (id' @ accepted_characters cs m (map rnd [pos..<pos + k * step]))))"
  using assms(2,3)
proof (induction k arbitrary: pos id')
  case 0
  then have "int (length id') = len" by simp
  then show ?case
    by (simp add: while_loop_done)
next
  case (Suc k)
  show ?case
  proof (cases "int (length id') < len")
    case False
    with Suc.prems(1) have "int (length id') = len" by simp
    then show ?thesis
      by (simp add: while_loop_done)
  next
    case True
    let ?b1 = "map rnd [pos..<pos + step]"
    let ?rest = "map rnd [pos + step..<pos + step + k * step]"
    let ?id1 = "for_loop cs m len ?b1 id'"
    have "[pos..<pos + step + k * step] = [pos..<pos + step] @ [pos + step..<pos + step + k * step]"
      by (rule upt_add_eq_append) simp
    then have split: "map rnd [pos..<pos + Suc k * step] = ?b1 @ ?rest"
      by (simp add: add.assoc)
    have id1: "?id1 = take (nat len) (id' @ accepted_characters cs m ?b1)"
      using True by (rule for_loop_take)
    have le1: "int (length ?id1) \<le> len"
      using True by (simp add: id1)
    have enough: "len \<le> int (length (?id1 @ accepted_characters cs m ?rest))"
      using Suc.prems(2) unfolding split accepted_characters_append id1
      by (simp add: min_def)
    have "while_loop rnd cs m step len pos id' = while_loop rnd cs m step len (pos + step) ?id1"
      using True assms(1) by (rule while_loop_step)
    also have "\<dots> = Some (Inr (take (nat len) (?id1 @ accepted_characters cs m ?rest)))"
      by (rule Suc.IH [OF le1 enough])
    also have "take (nat len) (?id1 @ accepted_characters cs m ?rest) =
        take (nat len) (id' @ accepted_characters cs m (map rnd [pos..<pos + Suc k * step]))"
      unfolding split accepted_characters_append id1 by (simp only: take_take_append append_assoc)
    finally show ?thesis .
  qed
qed

lemma while_loop_returns:
  assumes "0 < step" and "step \<le> 65536"
    and "len \<le> int (length (accepted_characters cs m (map rnd [0..<N])))"
  shows "while_loop rnd cs m step len 0 [] =
           Some (Inr (take (nat len) (accepted_characters cs m (map rnd [0..<N]))))"
proof (cases "0 \<le> len")
  case False
  then show ?thesis
    by (simp add: while_loop_done)
next
  case True
  from assms(1) have "N * step = N + (N * step - N)" by simp
  then have "[0..<N * step] = [0..<N] @ [N..<N * step]"
    using upt_add_eq_append [of 0 N "N * step - N"] by simp
  then have split: "map rnd [0..<0 + N * step] = map rnd [0..<N] @ map rnd [N..<N * step]"
    by simp
  have "while_loop rnd cs m step len 0 [] =
      Some (Inr (take (nat len) ([] @ accepted_characters cs m (map rnd [0..<0 + N * step]))))"
  proof (rule while_loop_batches [OF assms(2)])
    show "int (length ([]::string)) \<le> len" using True by simp
    show "len \<le> int (length ([] @ accepted_characters cs m (map rnd [0..<0 + N * step])))"
      using assms(3) unfolding split accepted_characters_append by simp
  qed
  also have "take (nat len) ([] @ accepted_characters cs m (map rnd [0..<0 + N * step])) =
      take (nat len) (accepted_characters cs m (map rnd [0..<N]))"
    using assms(3) unfolding split accepted_characters_append by simp
  finally show ?thesis .
qed

lemma while_loop_result_aux:
  assumes "while_loop rnd cs m step len pos id' = Some res"
  shows "int (length id') \<le> len \<longrightarrow>
           (res = Inl QuotaExceeded \<and> 65536 < step)
           \<or> (\<exists>y. res = Inr y \<and> int (length y) = len \<and> set y \<subseteq> set id' \<union> set cs)"
proof (rule while_loop.raw_induct
    [where P = "\<lambda>rnd cs m step len pos id' res.
       int (length id') \<le> len \<longrightarrow>
         (res = Inl QuotaExceeded \<and> 65536 < step)
         \<or> (\<exists>y. res = Inr y \<and> int (length y) = len \<and> set y \<subseteq> set id' \<union> set cs)",
     OF _ assms])
  fix f :: "random_source \<Rightarrow> string \<Rightarrow> int \<Rightarrow> nat \<Rightarrow> int \<Rightarrow> nat \<Rightarrow> string \<Rightarrow> (error + string) option"
  fix rnd cs m step len pos id' res
  assume IH: "\<And>rnd cs m step len pos id' res. f rnd cs m step len pos id' = Some res \<Longrightarrow>
      int (length id') \<le> len \<longrightarrow>
         (res = Inl QuotaExceeded \<and> 65536 < step)
         \<or> (\<exists>y. res = Inr y \<and> int (length y) = len \<and> set y \<subseteq> set id' \<union> set cs)"
  assume eq: "(if int (length id') < len
      then (case getRandomValues rnd pos step of
              Inl e \<Rightarrow> Some (Inl e)
            | Inr bytes \<Rightarrow> f rnd cs m step len (pos + step) (for_loop cs m len bytes id'))
      else Some (Inr id')) = Some res"
  show "int (length id') \<le> len \<longrightarrow>
         (res = Inl QuotaExceeded \<and> 65536 < step)
         \<or> (\<exists>y. res = Inr y \<and> int (length y) = len \<and> set y \<subseteq> set id' \<union> set cs)"
  proof (cases "int (length id') < len")
    case False
    with eq show ?thesis by auto
  next
    case True
    show ?thesis
    proof (cases "65536 < step")
      case quota: True
      with eq True show ?thesis by (simp add: getRandomValues_def)
    next
      case False
      let ?bytes = "map rnd [pos..<pos + step]"
      let ?id1 = "for_loop cs m len ?bytes id'"
      have id1: "?id1 = take (nat len) (id' @ accepted_characters cs m ?bytes)"
        using True by (rule for_loop_take)
      have le1: "int (length ?id1) \<le> len"
        using True by (simp add: id1)
      have "set ?id1 \<subseteq> set (id' @ accepted_characters cs m ?bytes)"
        unfolding id1 by (rule set_take_subset)
      then have sub: "set ?id1 \<subseteq> set id' \<union> set cs"
        using set_accepted_characters [of cs m ?bytes] by auto
      from eq True False have "f rnd cs m step len (pos + step) ?id1 = Some res"
        by (simp add: getRandomValues_def)
      from IH [OF this] le1
      have "(res = Inl QuotaExceeded \<and> 65536 < step)
         \<or> (\<exists>y. res = Inr y \<and> int (length y) = len \<and> set y \<subseteq> set ?id1 \<union> set cs)"
        by blast
      with sub show ?thesis by blast
    qed
  qed
qed

lemma ceil_div_positive:
  fixes a b :: int
  assumes "0 < a" and "0 < b"
  shows "0 < nat (- ((- a) div b))"
proof -
  from assms have "(- a) div b < 0"
    by (intro div_neg_pos_less0) simp_all
  then show ?thesis by simp
qed

lemma mask_of_positive:
  assumes "getCharacterSet s l u = Inr cs"
  shows "0 < mask_of cs \<and> 0 < length cs"
  using getCharacterSet_cases [OF assms]
  by (elim insertE emptyE) (simp_all add: mask_values)

lemma step_of_positive:
  assumes "getCharacterSet s l u = Inr cs" and "0 < len"
  shows "0 < step_of cs (mask_of cs) len"
  unfolding step_of_def
  using mask_of_positive [OF assms(1)] assms(2)
  by (intro ceil_div_positive) simp_all

lemma getCharacterSet_known:
  assumes "s \<in> {''hex'', ''alphanumeric'', ''extended''}"
  shows "\<exists>cs. getCharacterSet s l u = Inr cs"
  using assms by (auto simp: getCharacterSet_def)

lemma generateId_Object:
  assumes "0 < length_cfg c"
    and "getCharacterSet (style c) (onlyLowerCase c) (urlSafe c) = Inr cs"
  shows "generateId rnd (Object c) =
           while_loop rnd cs (mask_of cs) (step_of cs (mask_of cs) (length_cfg c))
             (length_cfg c) 0 []"
  using assms by (simp add: generateId_def Let_def)

lemma generateId_Object_unknown_style:
  assumes "0 < length_cfg c"
    and "getCharacterSet (style c) (onlyLowerCase c) (urlSafe c) = Inl e"
  shows "generateId rnd (Object c) = Some (Inl (InvalidStyle (style c)))"
  using assms by (auto simp: generateId_def getCharacterSet_def split: if_splits)

lemma generateId_Object_invalid_length:
  assumes "length_cfg c \<le> 0"
  shows "generateId rnd (Object c) = Some (Inl InvalidLength)"
  using assms by (auto simp: generateId_def)

lemma generateId_Object_cases:
  assumes "0 < length_cfg c" and "generateId rnd (Object c) = Some res"
  shows "res = Inl (InvalidStyle (style c)) \<or> res = Inl QuotaExceeded
         \<or> (\<exists>id'. res = Inr id' \<and> int (length id') = length_cfg c)"
proof (cases "getCharacterSet (style c) (onlyLowerCase c) (urlSafe c)")
  case (Inl e)
  from generateId_Object_unknown_style [OF assms(1) Inl, of rnd] assms(2)
  show ?thesis by simp
next
  case (Inr cs)
  from assms(2) have "while_loop rnd cs (mask_of cs) (step_of cs (mask_of cs) (length_cfg c))
      (length_cfg c) 0 [] = Some res"
    unfolding generateId_Object [OF assms(1) Inr] .
  from while_loop_result_aux [OF this] assms(1) show ?thesis by auto
qed

text \<open>
  Within the quota of \<open>getRandomValues\<close>: for a configuration with a positive length and one
  of the three known styles \<open>generateId\<close> never fails, whatever it returns is a string of
  exactly \<open>length\<close> characters of the resolved alphabet, and it returns as soon as the random
  source has delivered \<open>length\<close> accepted bytes. Beyond the quota it fails.
\<close>

lemma generateId_within_quota:
  assumes "0 < length_cfg c"
    and "style c \<in> {''hex'', ''alphanumeric'', ''extended''}"
  shows "\<exists>cs. getCharacterSet (style c) (onlyLowerCase c) (urlSafe c) = Inr cs
      \<and> (step_of cs (mask_of cs) (length_cfg c) \<le> 65536 \<longrightarrow>
           (\<forall>res. generateId rnd (Object c) = Some res \<longrightarrow>
              (\<exists>id'. res = Inr id' \<and> int (length id') = length_cfg c \<and> set id' \<subseteq> set cs))
           \<and> (length_cfg c \<le> int (length (accepted_characters cs (mask_of cs) (map rnd [0..<N]))) \<longrightarrow>
                generateId rnd (Object c) =
                  Some (Inr (take (nat (length_cfg c))
                              (accepted_characters cs (mask_of cs) (map rnd [0..<N]))))))
      \<and> (65536 < step_of cs (mask_of cs) (length_cfg c) \<longrightarrow>
           generateId rnd (Object c) = Some (Inl QuotaExceeded))"
proof -
  from getCharacterSet_known [OF assms(2)]
  obtain cs where cs: "getCharacterSet (style c) (onlyLowerCase c) (urlSafe c) = Inr cs"
    by blast
  let ?m = "mask_of cs"
  let ?step = "step_of cs ?m (length_cfg c)"
  note gen = generateId_Object [OF assms(1) cs, of rnd]
  have part: "\<exists>id'. res = Inr id' \<and> int (length id') = length_cfg c \<and> set id' \<subseteq> set cs"
    if "?step \<le> 65536" and "generateId rnd (Object c) = Some res" for res
  proof -
    from that(2) have "while_loop rnd cs ?m ?step (length_cfg c) 0 [] = Some res"
      unfolding gen .
    from while_loop_result_aux [OF this] assms(1) that(1) show ?thesis by auto
  qed
  have total: "generateId rnd (Object c) =
      Some (Inr (take (nat (length_cfg c)) (accepted_characters cs ?m (map rnd [0..<N]))))"
    if "?step \<le> 65536"
      and "length_cfg c \<le> int (length (accepted_characters cs ?m (map rnd [0..<N])))"
    unfolding gen
    using while_loop_returns [OF step_of_positive [OF cs assms(1)] that] .
  have quota: "generateId rnd (Object c) = Some (Inl QuotaExceeded)" if "65536 < ?step"
    unfolding gen using assms(1) that by (intro while_loop_quota) simp_all
  from cs part total quota show ?thesis by blast
qed

lemma generateId_sample_run:
  "generateId sample_source (Object hex_config) = Some (Inr ''05AFe3'')"
proof -
  have len: "0 < length_cfg hex_config"
    by (simp add: hex_config_def)
  have cs: "getCharacterSet (style hex_config) (onlyLowerCase hex_config) (urlSafe hex_config) =
      Inr ''0123456789ABCDEFabcdef''"
    by (simp add: hex_config_def getCharacterSet_def)
  have acc: "accepted_characters ''0123456789ABCDEFabcdef''
      (mask_of ''0123456789ABCDEFabcdef'') (map sample_source [0..<8]) = ''05AFe3''"
    by code_simp
  have step: "step_of ''0123456789ABCDEFabcdef'' (mask_of ''0123456789ABCDEFabcdef'')
      (length_cfg hex_config) = 14"
    by (simp add: step_of_def mask_values hex_config_def)
  have "while_loop sample_source ''0123456789ABCDEFabcdef'' (mask_of ''0123456789ABCDEFabcdef'')
      14 (length_cfg hex_config) 0 [] =
      Some (Inr (take (nat (length_cfg hex_config)) (accepted_characters ''0123456789ABCDEFabcdef''
      (mask_of ''0123456789ABCDEFabcdef'') (map sample_source [0..<8]))))"
    by (rule while_loop_returns) (simp_all add: acc hex_config_def)
  then show ?thesis
    unfolding generateId_Object [OF len cs] step acc by (simp add: hex_config_def)
qed

text \<open>
  Claim C1. The claim asks for a string of exactly \<open>length\<close> characters for every positive
  \<open>length\<close>. For the default style and \<open>length = 30000\<close> the batch size is 92364 bytes, beyond
  the 65536 bytes \<open>getRandomValues\<close> fills at once: the call fails on its first batch,
  whatever the random bytes are, and no identifier is returned.
\<close>

theorem generateId_large_length_fails:
  "0 < length_cfg large_config
   \<and> style large_config \<in> {''hex'', ''alphanumeric'', ''extended''}
   \<and> step_of ''ABCDEFGHIJKLMNOPQRSTUVWXYZabcdefghijklmnopqrstuvwxyz0123456789-._~'' 127
        (length_cfg large_config) = 92364
   \<and> generateId zero_source (Object large_config) = Some (Inl QuotaExceeded)
   \<and> fst (create zero_source (Some 30000) None None None (constructor [])) =
       Some (Inl QuotaExceeded)"
proof -
  let ?ext = "''ABCDEFGHIJKLMNOPQRSTUVWXYZabcdefghijklmnopqrstuvwxyz0123456789-._~''"
  have len: "0 < length_cfg large_config"
    by (simp add: large_config_def)
  have sty: "style large_config \<in> {''hex'', ''alphanumeric'', ''extended''}"
    by (simp add: large_config_def)
  have cs: "getCharacterSet (style large_config) (onlyLowerCase large_config)
      (urlSafe large_config) = Inr ?ext"
    by (simp add: large_config_def getCharacterSet_def)
  have step: "step_of ?ext 127 (length_cfg large_config) = 92364"
    by (simp add: step_of_def large_config_def)
  have gen: "generateId rnd (Object large_config) = Some (Inl QuotaExceeded)" for rnd
    unfolding generateId_Object [OF len cs] mask_values step
    using len by (intro while_loop_quota) simp_all
  have "generateConfig \<lparr> name_opt = None, length_opt = Some 30000, onlyLowerCase_opt = None,
      style_opt = None, urlSafe_opt = None \<rparr> = large_config"
    by (simp add: generateConfig_def large_config_def defaultOnlyLowerCase_def defaultStyle_def
        defaultUrlSafe_def)
  then have "fst (create zero_source (Some 30000) None None None (constructor [])) =
      Some (Inl QuotaExceeded)"
    by (simp add: create_def gen)
  with len sty step gen show ?thesis by blast
qed

text \<open>
  The hypothesis on the random source cannot be dropped: on a source whose bytes are all
  rejected the loop does not return.
\<close>

lemma for_loop_rejects_all:
  assumes "\<forall>b \<in> set bytes. \<not> accepted cs m b"
  shows "for_loop cs m len bytes id' = id'"
  using assms by (induction bytes) (simp_all add: accepted_def)

lemma while_loop_never_returns_aux:
  assumes "while_loop rnd cs m step len pos id' = Some res"
  shows "\<not> ((\<forall>i. \<not> accepted cs m (rnd i)) \<and> int (length id') < len \<and> step \<le> 65536)"
proof (rule while_loop.raw_induct
    [where P = "\<lambda>rnd cs m step len pos id' res.
       \<not> ((\<forall>i. \<not> accepted cs m (rnd i)) \<and> int (length id') < len \<and> step \<le> 65536)",
     OF _ assms])
  fix f :: "random_source \<Rightarrow> string \<Rightarrow> int \<Rightarrow> nat \<Rightarrow> int \<Rightarrow> nat \<Rightarrow> string \<Rightarrow> (error + string) option"
  fix rnd cs m step len pos id' res
  assume IH: "\<And>rnd cs m step len pos id' res. f rnd cs m step len pos id' = Some res \<Longrightarrow>
      \<not> ((\<forall>i. \<not> accepted cs m (rnd i)) \<and> int (length id') < len \<and> step \<le> 65536)"
  assume eq: "(if int (length id') < len
      then (case getRandomValues rnd pos step of
              Inl e \<Rightarrow> Some (Inl e)
            | Inr bytes \<Rightarrow> f rnd cs m step len (pos + step) (for_loop cs m len bytes id'))
      else Some (Inr id')) = Some res"
  show "\<not> ((\<forall>i. \<not> accepted cs m (rnd i)) \<and> int (length id') < len \<and> step \<le> 65536)"
  proof
    assume stuck: "(\<forall>i. \<not> accepted cs m (rnd i)) \<and> int (length id') < len \<and> step \<le> 65536"
    then have "for_loop cs m len (map rnd [pos..<pos + step]) id' = id'"
      by (intro for_loop_rejects_all) simp
    with eq stuck have "f rnd cs m step len (pos + step) id' = Some res"
      by (simp add: getRandomValues_def)
    from IH [OF this] stuck show False by blast
  qed
qed

lemma generateId_may_not_return:
  "generateId stuck_source (Object alphanumeric_config) = None"
proof -
  let ?cs = "''ABCDEFGHIJKLMNOPQRSTUVWXYZabcdefghijklmnopqrstuvwxyz0123456789''"
  have cs: "getCharacterSet (style alphanumeric_config) (onlyLowerCase alphanumeric_config)
      (urlSafe alphanumeric_config) = Inr ?cs"
    by (simp add: alphanumeric_config_def getCharacterSet_def)
  have len: "0 < length_cfg alphanumeric_config"
    by (simp add: alphanumeric_config_def)
  have rej: "\<forall>i. \<not> accepted ?cs (mask_of ?cs) (stuck_source i)"
    by (simp add: accepted_def mask_values stuck_source_def)
  have step: "step_of ?cs (mask_of ?cs) (length_cfg alphanumeric_config) \<le> 65536"
    by (simp add: step_of_def mask_values alphanumeric_config_def)
  show ?thesis
  proof (rule ccontr)
    assume "generateId stuck_source (Object alphanumeric_config) \<noteq> None"
    then obtain res where "while_loop stuck_source ?cs (mask_of ?cs)
        (step_of ?cs (mask_of ?cs) (length_cfg alphanumeric_config))
        (length_cfg alphanumeric_config) 0 [] = Some res"
      unfolding generateId_Object [OF len cs] by blast
    from while_loop_never_returns_aux [OF this] rej len step show False
      by simp
  qed
qed

section \<open>The public methods: results\<close>

lemma length_generateConfig_nonzero: "length_cfg (generateConfig options) \<noteq> 0"
  by (simp add: generateConfig_def defaultLength_def split: option.splits)

lemma custom_stored:
  assumes "r n = Some c"
  shows "custom rnd n r = (generateId rnd (Object c), r)"
  using assms by (simp add: custom_def get_property_def)

lemma create_zero_returns:
  assumes "16 \<le> length (accepted_characters
             ''ABCDEFGHIJKLMNOPQRSTUVWXYZabcdefghijklmnopqrstuvwxyz0123456789-._~'' 127
             (map rnd [0..<N]))"
  shows "fst (create rnd (Some 0) None None None r) =
           Some (Inr (take 16 (accepted_characters
             ''ABCDEFGHIJKLMNOPQRSTUVWXYZabcdefghijklmnopqrstuvwxyz0123456789-._~'' 127
             (map rnd [0..<N]))))"
proof -
  let ?ext = "''ABCDEFGHIJKLMNOPQRSTUVWXYZabcdefghijklmnopqrstuvwxyz0123456789-._~''"
  let ?d = "generateConfig \<lparr> name_opt = None, length_opt = Some 0, onlyLowerCase_opt = None,
      style_opt = None, urlSafe_opt = None \<rparr>"
  have d: "?d = \<lparr> name = [], length_cfg = 16, onlyLowerCase = False, style = ''extended'',
      urlSafe = True \<rparr>"
    by (simp add: generateConfig_def defaultLength_def defaultOnlyLowerCase_def
        defaultStyle_def defaultUrlSafe_def)
  have cs: "getCharacterSet (style ?d) (onlyLowerCase ?d) (urlSafe ?d) = Inr ?ext"
    unfolding d by (simp add: getCharacterSet_def)
  have dpos: "0 < length_cfg ?d" unfolding d by simp
  have step: "step_of ?ext (mask_of ?ext) (length_cfg ?d) = 50"
    unfolding d by (simp add: step_of_def mask_values)
  from assms have "length_cfg ?d \<le> int (length (accepted_characters ?ext (mask_of ?ext) (map rnd [0..<N])))"
    unfolding d by (simp add: mask_values)
  from while_loop_returns [of 50, OF _ _ this]
  show ?thesis
    unfolding create_def Let_def fst_conv generateId_Object [OF dpos cs] step
    by (simp add: mask_values d)
qed

lemma create_zero_run:
  "fst (create zero_source (Some 0) None None None (constructor [])) =
     Some (Inr ''AAAAAAAAAAAAAAAA'')"
proof -
  have acc: "accepted_characters
      ''ABCDEFGHIJKLMNOPQRSTUVWXYZabcdefghijklmnopqrstuvwxyz0123456789-._~'' 127
      (map zero_source [0..<16]) = ''AAAAAAAAAAAAAAAA''"
    by code_simp
  show ?thesis
    using create_zero_returns [of zero_source 16 "constructor []"] unfolding acc by simp
qed

text \<open>
  Claim C3. A length of zero given to \<open>create\<close> is replaced by the default length during
  normalisation: \<open>create(0)\<close> behaves as \<open>create()\<close>, it never fails with the error of the
  invalid length, every string it returns has 16 characters, and with the default style it
  returns as soon as the random source has delivered 16 accepted bytes.
\<close>

theorem create_zero_length:
  "fst (create rnd (Some 0) s l u r) = fst (create rnd None s l u r)
   \<and> fst (create rnd (Some 0) s l u r) \<noteq> Some (Inl InvalidLength)
   \<and> (fst (create rnd (Some 0) s l u r) = Some (Inr id') \<longrightarrow> length id' = 16)
   \<and> (16 \<le> length (accepted_characters
                     ''ABCDEFGHIJKLMNOPQRSTUVWXYZabcdefghijklmnopqrstuvwxyz0123456789-._~'' 127
                     (map rnd [0..<N])) \<longrightarrow>
        fst (create rnd (Some 0) None None None r) =
          Some (Inr (take 16 (accepted_characters
                     ''ABCDEFGHIJKLMNOPQRSTUVWXYZabcdefghijklmnopqrstuvwxyz0123456789-._~'' 127
                     (map rnd [0..<N])))))"
proof -
  let ?o = "\<lambda>len s. \<lparr> name_opt = None, length_opt = len, onlyLowerCase_opt = l,
      style_opt = s, urlSafe_opt = u \<rparr>"
  let ?c = "generateConfig (?o (Some 0) s)"
  let ?ext = "''ABCDEFGHIJKLMNOPQRSTUVWXYZabcdefghijklmnopqrstuvwxyz0123456789-._~''"
  have same: "?c = generateConfig (?o None s)"
    by (simp add: generateConfig_def)
  have len: "length_cfg ?c = 16"
    by (simp add: generateConfig_def defaultLength_def)
  then have pos: "0 < length_cfg ?c" by simp
  have eq: "fst (create rnd (Some 0) s l u r) = generateId rnd (Object ?c)"
    by (simp add: create_def)
  have 1: "fst (create rnd (Some 0) s l u r) = fst (create rnd None s l u r)"
    by (simp add: create_def same)
  have res: "res = Inl (InvalidStyle (style ?c)) \<or> res = Inl QuotaExceeded
      \<or> (\<exists>id'. res = Inr id' \<and> int (length id') = 16)"
    if "generateId rnd (Object ?c) = Some res" for res
    using generateId_Object_cases [OF pos that] len by simp
  have 2: "fst (create rnd (Some 0) s l u r) \<noteq> Some (Inl InvalidLength)"
    unfolding eq using res by blast
  have 3: "length id' = 16" if "fst (create rnd (Some 0) s l u r) = Some (Inr id')"
    using res that unfolding eq by fastforce
  have 4: "fst (create rnd (Some 0) None None None r) =
      Some (Inr (take 16 (accepted_characters ?ext 127 (map rnd [0..<N]))))"
    if "16 \<le> length (accepted_characters ?ext 127 (map rnd [0..<N]))"
    using that by (rule create_zero_returns)
  from 1 2 3 4 show ?thesis by blast
qed

theorem create_zero_length_witness:
  "16 \<le> length (accepted_characters
                  ''ABCDEFGHIJKLMNOPQRSTUVWXYZabcdefghijklmnopqrstuvwxyz0123456789-._~'' 127
                  (map zero_source [0..<16]))
   \<and> fst (create zero_source (Some 0) None None None (constructor [])) =
       Some (Inr ''AAAAAAAAAAAAAAAA'')
   \<and> length ''AAAAAAAAAAAAAAAA'' = 16"
proof -
  have acc: "accepted_characters
      ''ABCDEFGHIJKLMNOPQRSTUVWXYZabcdefghijklmnopqrstuvwxyz0123456789-._~'' 127
      (map zero_source [0..<16]) = ''AAAAAAAAAAAAAAAA''"
    by code_simp
  from create_zero_length [of zero_source None None None "constructor []" "''AAAAAAAAAAAAAAAA''" 16]
  have "16 \<le> length (accepted_characters
      ''ABCDEFGHIJKLMNOPQRSTUVWXYZabcdefghijklmnopqrstuvwxyz0123456789-._~'' 127
      (map zero_source [0..<16])) \<longrightarrow>
    fst (create zero_source (Some 0) None None None (constructor [])) =
      Some (Inr (take 16 (accepted_characters
        ''ABCDEFGHIJKLMNOPQRSTUVWXYZabcdefghijklmnopqrstuvwxyz0123456789-._~'' 127
        (map zero_source [0..<16]))))"
    by blast
  then show ?thesis
    unfolding acc by simp
qed

text \<open>
  A zero length on the ad-hoc path does not fail: \<open>create(0)\<close> on the all-zero random
  source returns sixteen times the first character of the default alphabet.
\<close>

theorem create_zero_not_invalid_length:
  "(0::int) \<le> 0
   \<and> fst (create zero_source (Some 0) None None None (constructor [])) =
       Some (Inr ''AAAAAAAAAAAAAAAA'')
   \<and> fst (create zero_source (Some 0) None None None (constructor [])) \<noteq>
       Some (Inl InvalidLength)"
  by (simp add: create_zero_run)

text \<open>
  Claim C2, as amended. \<open>generateId\<close> fails with the error of the invalid length for every
  configuration whose length is zero or negative. On the ad-hoc path \<open>create\<close> fails so for
  every negative length, while a length of zero is replaced by the default (\<open>create(0)\<close> is
  \<open>create()\<close>). On the named path \<open>custom\<close> fails so whenever the stored configuration
  has a length that is zero or negative, in particular after \<open>add\<close> with a negative length;
  normalisation never yields the length zero, so no configuration stored by \<open>add\<close> or by the
  constructor has it.
\<close>

theorem invalid_length_paths:
  "(length_cfg c \<le> 0 \<longrightarrow> generateId rnd (Object c) = Some (Inl InvalidLength))
   \<and> (len < 0 \<longrightarrow> fst (create rnd (Some len) s l u r) = Some (Inl InvalidLength))
   \<and> (r n = Some c \<and> length_cfg c \<le> 0 \<longrightarrow>
        fst (custom rnd n r) = Some (Inl InvalidLength))
   \<and> (name_opt config = Some n \<and> n \<noteq> [] \<and> length_opt config = Some len \<and> len < 0 \<longrightarrow>
        fst (custom rnd n (snd (add config r))) = Some (Inl InvalidLength))
   \<and> fst (create rnd (Some 0) s l u r) = fst (create rnd None s l u r)
   \<and> length_cfg (generateConfig config) \<noteq> 0"
proof -
  have 1: "generateId rnd (Object c) = Some (Inl InvalidLength)" if "length_cfg c \<le> 0" for c
    using that by (rule generateId_Object_invalid_length)
  have 2: "fst (create rnd (Some len) s l u r) = Some (Inl InvalidLength)" if "len < 0"
    using that by (simp add: create_def 1 generateConfig_def)
  have 3: "fst (custom rnd n r) = Some (Inl InvalidLength)"
    if "r n = Some c \<and> length_cfg c \<le> 0"
    using that by (simp add: custom_stored 1)
  have 4: "fst (custom rnd n (snd (add config r))) = Some (Inl InvalidLength)"
    if "name_opt config = Some n \<and> n \<noteq> [] \<and> length_opt config = Some len \<and> len < 0"
  proof -
    from that have "snd (add config r) n = Some (generateConfig config)"
      by (simp add: add_def falsy_name_def set_property_def)
    moreover from that have "length_cfg (generateConfig config) \<le> 0"
      by (simp add: generateConfig_def)
    ultimately show ?thesis
      by (simp add: custom_stored 1)
  qed
  have 5: "fst (create rnd (Some 0) s l u r) = fst (create rnd None s l u r)"
    by (simp add: create_def generateConfig_def)
  from 1 2 3 4 5 length_generateConfig_nonzero show ?thesis
    by blast
qed

theorem invalid_length_paths_witness:
  "length_cfg (generateConfig negative_options) \<le> 0
   \<and> generateId zero_source (Object (generateConfig negative_options)) = Some (Inl InvalidLength)
   \<and> (- 5 :: int) < 0
   \<and> fst (create zero_source (Some (- 5)) None None None (constructor [(''neg'', negative_options)])) =
       Some (Inl InvalidLength)
   \<and> constructor [(''neg'', negative_options)] ''neg'' = Some (generateConfig negative_options)
   \<and> fst (custom zero_source ''neg'' (constructor [(''neg'', negative_options)])) =
       Some (Inl InvalidLength)
   \<and> name_opt negative_options = Some ''neg'' \<and> ''neg'' \<noteq> []
   \<and> length_opt negative_options = Some (- 5)
   \<and> fst (custom zero_source ''neg''
           (snd (add negative_options (constructor [(''neg'', negative_options)])))) =
       Some (Inl InvalidLength)"
proof -
  have a: "length_cfg (generateConfig negative_options) \<le> 0"
    by (simp add: generateConfig_def negative_options_def)
  have b: "constructor [(''neg'', negative_options)] ''neg'' = Some (generateConfig negative_options)"
    by (simp add: constructor_def set_property_def)
  have c: "name_opt negative_options = Some ''neg'' \<and> ''neg'' \<noteq> []
      \<and> length_opt negative_options = Some (- 5)"
    by (simp add: negative_options_def)
  show ?thesis
    using a b c
      invalid_length_paths [of "generateConfig negative_options" zero_source "- 5" None None None
        "constructor [(''neg'', negative_options)]" "''neg''" negative_options]
    by simp
qed

text \<open>
  Claim C6. The claim asks for the error of the missing configuration exactly when the registry
  has no entry for the name. The registry is a plain object, so a name that
  \<open>Object.prototype\<close> defines is found although nothing was registered under it: on a fresh
  instance \<open>custom('toString')\<close> passes the inherited function to \<open>generateId\<close>, whose
  \<open>length\<close> is 0, and fails with the error of the invalid length.
\<close>

theorem custom_inherited_name:
  "constructor [] ''toString'' = None
   \<and> fst (custom zero_source ''toString'' (constructor [])) = Some (Inl InvalidLength)
   \<and> fst (custom zero_source ''toString'' (constructor [])) \<noteq>
       Some (Inl (ConfigurationNotFound ''toString''))"
  by (simp add: constructor_def custom_def get_property_def object_prototype_def generateId_def)

text \<open>
  For the names that are not inherited, \<open>custom\<close> does what the claim says: a name without an
  entry fails with the error of the missing configuration, which carries the name; a stored
  configuration is the one that generates, also right after \<open>add\<close> has overwritten it.
\<close>

lemma custom_not_found:
  assumes "r n = None" and "n \<noteq> ''__proto__''" and "r ''__proto__'' = None"
    and "object_prototype n = Undefined"
  shows "custom rnd n r = (Some (Inl (ConfigurationNotFound n)), r)"
  using assms by (simp add: custom_def get_property_def)

lemma add_then_custom:
  assumes "name_opt config = Some n" and "n \<noteq> []"
  shows "fst (custom rnd n (snd (add config r))) = generateId rnd (Object (generateConfig config))"
  using assms by (simp add: add_def falsy_name_def set_property_def custom_stored)

text \<open>
  Claim C7. \<open>add\<close> and \<open>remove\<close> fail with the error of the missing name exactly when the
  name of the given configuration is absent or empty; \<open>remove\<close> with a non-empty name
  succeeds, it leaves the registry as it is when the name has no entry, and removing twice is
  removing once.
\<close>

theorem add_remove_missing_name:
  "(fst (add config r) = Inl MissingName \<longleftrightarrow> name_opt config = None \<or> name_opt config = Some [])
   \<and> (fst (remove config r) = Inl MissingName \<longleftrightarrow>
        name_opt config = None \<or> name_opt config = Some [])
   \<and> (name_opt config = Some n \<and> n \<noteq> [] \<longrightarrow> fst (remove config r) = Inr ())
   \<and> (name_opt config = Some n \<and> n \<noteq> [] \<and> r n = None \<longrightarrow> remove config r = (Inr (), r))
   \<and> snd (remove config (snd (remove config r))) = snd (remove config r)"
  by (auto simp: add_def remove_def falsy_name_def delete_property_def Let_def
      split: option.splits)

theorem add_remove_missing_name_witness:
  "name_opt negative_options = Some ''neg'' \<and> ''neg'' \<noteq> []
   \<and> constructor [(''other'', no_options)] ''neg'' = None
   \<and> fst (remove negative_options (constructor [(''other'', no_options)])) = Inr ()
   \<and> remove negative_options (constructor [(''other'', no_options)]) =
       (Inr (), constructor [(''other'', no_options)])
   \<and> fst (add no_options (constructor [(''other'', no_options)])) = Inl MissingName
   \<and> fst (remove no_options (constructor [(''other'', no_options)])) = Inl MissingName"
proof -
  have a: "name_opt negative_options = Some ''neg'' \<and> ''neg'' \<noteq> []"
    by (simp add: negative_options_def)
  have b: "constructor [(''other'', no_options)] ''neg'' = None"
    by (simp add: constructor_def set_property_def)
  have c: "name_opt no_options = None"
    by (simp add: no_options_def)
  show ?thesis
    using a b c
      add_remove_missing_name [of negative_options "constructor [(''other'', no_options)]" "''neg''"]
      add_remove_missing_name [of no_options "constructor [(''other'', no_options)]" "''neg''"]
    by simp
qed

lemma constructor_loop_lookup:
  "constructor_loop entries r k =
     (case map_of (rev entries) k of
        Some config \<Rightarrow> Some (generateConfig config)
      | None \<Rightarrow> r k)"
proof (induction entries arbitrary: r)
  case Nil
  then show ?case by simp
next
  case (Cons e entries)
  obtain n config where e: "e = (n, config)" by (cases e)
  show ?case
    unfolding e constructor_loop.simps Cons.IH
    by (simp add: set_property_def map_add_def split: option.splits)
qed

lemma constructor_lookup:
  "constructor entries k = map_option generateConfig (map_of (rev entries) k)"
  unfolding constructor_def constructor_loop_lookup
  by (simp split: option.splits)

text \<open>
  Claim C8. Normalisation fills every absent field with its default (length 16, not only
  lower case, style \<open>extended\<close>, URL-safe, empty name) and keeps a flag that is given, also
  when it is \<open>false\<close>. \<open>create\<close> generates from the normalised configuration, \<open>add\<close> stores
  the normalised configuration under the name, and the constructor stores the normalised
  configuration of every entry of its mapping (the keys of a mapping are distinct).
\<close>

theorem generateConfig_defaults:
  "(length_opt options = None \<longrightarrow> length_cfg (generateConfig options) = 16)
   \<and> (onlyLowerCase_opt options = None \<longrightarrow> onlyLowerCase (generateConfig options) = False)
   \<and> (style_opt options = None \<longrightarrow> style (generateConfig options) = ''extended'')
   \<and> (urlSafe_opt options = None \<longrightarrow> urlSafe (generateConfig options) = True)
   \<and> (name_opt options = None \<longrightarrow> name (generateConfig options) = [])
   \<and> (onlyLowerCase_opt options = Some b \<longrightarrow> onlyLowerCase (generateConfig options) = b)
   \<and> (urlSafe_opt options = Some b \<longrightarrow> urlSafe (generateConfig options) = b)
   \<and> fst (create rnd len s l u r) =
       generateId rnd (Object (generateConfig
         \<lparr> name_opt = None, length_opt = len, onlyLowerCase_opt = l, style_opt = s,
           urlSafe_opt = u \<rparr>))
   \<and> (name_opt options = Some n \<and> n \<noteq> [] \<longrightarrow>
        snd (add options r) n = Some (generateConfig options))
   \<and> (distinct (map fst entries) \<and> (n, options) \<in> set entries \<longrightarrow>
        constructor entries n = Some (generateConfig options))
   \<and> (constructor entries n = Some c \<longrightarrow>
        (\<exists>config. (n, config) \<in> set entries \<and> c = generateConfig config))"
proof -
  have fields:
    "length_opt options = None \<longrightarrow> length_cfg (generateConfig options) = 16"
    "onlyLowerCase_opt options = None \<longrightarrow> onlyLowerCase (generateConfig options) = False"
    "style_opt options = None \<longrightarrow> style (generateConfig options) = ''extended''"
    "urlSafe_opt options = None \<longrightarrow> urlSafe (generateConfig options) = True"
    "name_opt options = None \<longrightarrow> name (generateConfig options) = []"
    "onlyLowerCase_opt options = Some b \<longrightarrow> onlyLowerCase (generateConfig options) = b"
    "urlSafe_opt options = Some b \<longrightarrow> urlSafe (generateConfig options) = b"
    by (simp_all add: generateConfig_def defaultLength_def defaultOnlyLowerCase_def
        defaultStyle_def defaultUrlSafe_def)
  have cr: "fst (create rnd len s l u r) =
       generateId rnd (Object (generateConfig
         \<lparr> name_opt = None, length_opt = len, onlyLowerCase_opt = l, style_opt = s,
           urlSafe_opt = u \<rparr>))"
    by (simp add: create_def)
  have ad: "name_opt options = Some n \<and> n \<noteq> [] \<longrightarrow>
        snd (add options r) n = Some (generateConfig options)"
    by (simp add: add_def falsy_name_def set_property_def)
  have c1: "constructor entries n = Some (generateConfig options)"
    if "distinct (map fst entries) \<and> (n, options) \<in> set entries"
  proof -
    from that have "distinct (rev (map fst entries))" and "(n, options) \<in> set (rev entries)"
      by simp_all
    then have "distinct (map fst (rev entries))" and "(n, options) \<in> set (rev entries)"
      by (simp_all only: rev_map)
    then have "map_of (rev entries) n = Some options"
      by (rule map_of_is_SomeI)
    then show ?thesis by (simp add: constructor_lookup)
  qed
  have c2: "\<exists>config. (n, config) \<in> set entries \<and> c = generateConfig config"
    if "constructor entries n = Some c"
  proof -
    from that obtain config where "map_of (rev entries) n = Some config"
      and c: "c = generateConfig config"
      by (auto simp: constructor_lookup)
    then have "(n, config) \<in> set entries"
      using map_of_SomeD [of "rev entries" n config] by simp
    with c show ?thesis by blast
  qed
  from fields cr ad c1 c2 show ?thesis by blast
qed

theorem generateConfig_defaults_witness:
  "length_opt test_options = Some 10 \<and> style_opt test_options = None
   \<and> onlyLowerCase_opt test_options = Some False \<and> urlSafe_opt test_options = Some False
   \<and> name_opt test_options = Some ''test-config'' \<and> ''test-config'' \<noteq> []
   \<and> generateConfig test_options =
       \<lparr> name = ''test-config'', length_cfg = 10, onlyLowerCase = False, style = ''extended'',
         urlSafe = False \<rparr>
   \<and> generateConfig no_options =
       \<lparr> name = [], length_cfg = 16, onlyLowerCase = False, style = ''extended'',
         urlSafe = True \<rparr>
   \<and> snd (add test_options (constructor [])) ''test-config'' = Some (generateConfig test_options)
   \<and> distinct (map fst [(''a'', no_options), (''test-config'', test_options)])
   \<and> (''test-config'', test_options) \<in> set [(''a'', no_options), (''test-config'', test_options)]
   \<and> constructor [(''a'', no_options), (''test-config'', test_options)] ''test-config'' =
       Some (generateConfig test_options)"
proof -
  have a: "length_opt test_options = Some 10 \<and> style_opt test_options = None
      \<and> onlyLowerCase_opt test_options = Some False \<and> urlSafe_opt test_options = Some False
      \<and> name_opt test_options = Some ''test-config'' \<and> ''test-config'' \<noteq> []"
    by (simp add: test_options_def)
  have b: "distinct (map fst [(''a'', no_options), (''test-config'', test_options)])
      \<and> (''test-config'', test_options) \<in> set [(''a'', no_options), (''test-config'', test_options)]"
    by simp
  have t: "generateConfig test_options =
       \<lparr> name = ''test-config'', length_cfg = 10, onlyLowerCase = False, style = ''extended'',
         urlSafe = False \<rparr>"
    by (simp add: generateConfig_def test_options_def defaultStyle_def)
  have n: "generateConfig no_options =
       \<lparr> name = [], length_cfg = 16, onlyLowerCase = False, style = ''extended'',
         urlSafe = True \<rparr>"
    by (simp add: generateConfig_def no_options_def defaultLength_def defaultOnlyLowerCase_def
        defaultStyle_def defaultUrlSafe_def)
  from generateConfig_defaults [of test_options False zero_source None None None None
      "constructor []" "''test-config''" "[(''a'', no_options), (''test-config'', test_options)]"
      "generateConfig test_options"] a b
  have "snd (add test_options (constructor [])) ''test-config'' = Some (generateConfig test_options)
      \<and> constructor [(''a'', no_options), (''test-config'', test_options)] ''test-config'' =
        Some (generateConfig test_options)"
    by blast
  with a b t n show ?thesis by blast
qed

text \<open>
  Claim C10. \<open>create\<close> and \<open>custom\<close> leave the registry as it is, whatever their result;
  \<open>add\<close> and \<open>remove\<close> leave every entry under a key other than the name of the given
  configuration as it is, and the whole registry when they fail.
\<close>

theorem registry_frame:
  "snd (create rnd len s l u r) = r
   \<and> snd (custom rnd n r) = r
   \<and> (name_opt config \<noteq> Some k \<longrightarrow> snd (add config r) k = r k)
   \<and> (name_opt config \<noteq> Some k \<longrightarrow> snd (remove config r) k = r k)
   \<and> (fst (add config r) = Inl MissingName \<longrightarrow> snd (add config r) = r)
   \<and> (fst (remove config r) = Inl MissingName \<longrightarrow> snd (remove config r) = r)"
  by (auto simp: create_def custom_def add_def remove_def set_property_def delete_property_def
      falsy_name_def Let_def split: option.splits)

theorem registry_frame_witness:
  "name_opt test_options \<noteq> Some ''neg''
   \<and> snd (add test_options (constructor [(''neg'', negative_options)])) ''neg'' =
       Some (generateConfig negative_options)
   \<and> snd (remove test_options (constructor [(''neg'', negative_options)])) ''neg'' =
       Some (generateConfig negative_options)
   \<and> snd (custom zero_source ''neg'' (constructor [(''neg'', negative_options)])) =
       constructor [(''neg'', negative_options)]
   \<and> snd (create zero_source (Some 0) None None None (constructor [(''neg'', negative_options)])) =
       constructor [(''neg'', negative_options)]
   \<and> fst (add no_options (constructor [(''neg'', negative_options)])) = Inl MissingName
   \<and> snd (add no_options (constructor [(''neg'', negative_options)])) =
       constructor [(''neg'', negative_options)]
   \<and> fst (remove no_options (constructor [(''neg'', negative_options)])) = Inl MissingName
   \<and> snd (remove no_options (constructor [(''neg'', negative_options)])) =
       constructor [(''neg'', negative_options)]"
proof -
  let ?r = "constructor [(''neg'', negative_options)]"
  have a: "name_opt test_options \<noteq> Some ''neg''"
    by (simp add: test_options_def)
  have b: "?r ''neg'' = Some (generateConfig negative_options)"
    by (simp add: constructor_def set_property_def)
  have c: "fst (add no_options ?r) = Inl MissingName \<and> fst (remove no_options ?r) = Inl MissingName"
    by (simp add: add_def remove_def falsy_name_def no_options_def)
  show ?thesis
    using a b c
      registry_frame [of zero_source "Some 0" None None None ?r "''neg''" test_options "''neg''"]
      registry_frame [of zero_source "Some 0" None None None ?r "''neg''" no_options "''neg''"]
    by simp
qed

end
